theory Spec2Isabelle
  imports Main "HOL-Library.Word"
begin

section \<open>The kernel timer subsystem (kernel/timer.c)\<close>

text \<open>
  The timer queue of the kernel is one intrusive doubly-linked list of timer objects that
  live in memory owned by their callers. The model keeps a store of timer objects indexed
  by address, the queue as the sequence of the addresses linked into it (head first), the
  nesting depth of the critical section, and the calls made to the platform's hardware
  timer, oldest first. Everything the subsystem consumes from outside is an explicit
  input: the value read from \<open>current_time()\<close>, the build-time switch
  \<open>PLATFORM_HAS_DYNAMIC_TIMER\<close>, the behaviour of the callbacks behind the function
  pointers, and the value returned by \<open>thread_timer_tick()\<close>. Tracing
  (\<open>LTRACEF\<close>), the kernel event log and the thread statistics do not touch the
  timers and are left out.
\<close>

subsection \<open>Data\<close>

text \<open>
  \<open>lk_time_t\<close> is printed with \<open>%lu\<close> throughout timer.c: an unsigned long,
  32 bits wide on the targets of this kernel. Sums and differences of times wrap around.
\<close>

type_synonym lk_time_t = "32 word"

text \<open>Pointers are addresses; \<open>0\<close> is \<open>NULL\<close>.\<close>

type_synonym addr = nat

datatype handler_return = INT_NO_RESCHEDULE | INT_RESCHEDULE

text \<open>
  The ways the kernel stops: a failed \<open>DEBUG_ASSERT\<close>, a call of \<open>panic\<close>, and
  a fault raised inside a callback.
\<close>

datatype error = Assert_failed | Panic | Fault

text \<open>
  The fields of \<open>timer_t\<close> that timer.c reads and writes. The embedded list node is
  represented by the position of the timer's address in the queue.
\<close>

record timer_t =
  magic :: "32 word"
  scheduled_time :: lk_time_t
  periodic_time :: lk_time_t
  callback :: addr
  arg :: addr

datatype hw_op =
    Set_oneshot_timer lk_time_t
  | Set_periodic_timer lk_time_t
  | Stop_timer

record kstate =
  timers :: "addr \<Rightarrow> timer_t"
  timer_queue :: "addr list"
  critical_section_count :: nat
  hw_calls :: "hw_op list"

text \<open>
  A callback receives the timer, the time of the dispatch and the timer's argument. It runs
  kernel code, so it is a function of the state that either stops the kernel or returns a
  hint together with the state it leaves behind. A table gives the callback behind each
  function pointer.
\<close>

type_synonym timer_callback =
  "addr \<Rightarrow> lk_time_t \<Rightarrow> addr \<Rightarrow> kstate \<Rightarrow> error + (handler_return \<times> kstate)"

subsection \<open>Declarations that timer.c includes\<close>

text \<open>
  Modelled from the spec: the validity tag \<open>TIMER_MAGIC\<close> of kernel/timer.h, which is
  not among the sources. The spec calls it a sentinel that tells an initialized timer from
  uninitialized memory and fixes no value; only equality with it is ever used. The value
  chosen here spells \<open>timr\<close>.
\<close>

definition TIMER_MAGIC :: "32 word" where
  "TIMER_MAGIC = 0x74696D72"

text \<open>
  Modelled from the spec: the comparison macros \<open>TIME_GT\<close> and \<open>TIME_LT\<close> of
  platform.h, which is not among the sources. The spec reads \<open>TIME_GT(a, b)\<close> as
  "a is strictly greater than b" (the insertion scan) and \<open>TIME_LT(now, t)\<close> as
  "t is still in the future, where a deadline equal to now is due" (the dispatcher).
\<close>

definition TIME_GT :: "lk_time_t \<Rightarrow> lk_time_t \<Rightarrow> bool" where
  "TIME_GT a b \<longleftrightarrow> b < a"

definition TIME_LT :: "lk_time_t \<Rightarrow> lk_time_t \<Rightarrow> bool" where
  "TIME_LT a b \<longleftrightarrow> a < b"

text \<open>
  Modelled from the spec: the list primitives of list.h, which is not among the sources.
  The spec describes the queue as an ordered sequence of pending timers in which
  membership is derived from the link state of the timer's node: \<open>list_in_list\<close> asks
  whether the node is linked, \<open>list_delete\<close> unlinks it, \<open>list_peek_head_type\<close>
  returns the first entry or \<open>NULL\<close>, \<open>list_initialize\<close> makes the list empty.
\<close>

definition list_in_list :: "kstate \<Rightarrow> addr \<Rightarrow> bool" where
  "list_in_list s timer \<longleftrightarrow> timer \<in> set (timer_queue s)"

definition list_delete :: "addr \<Rightarrow> kstate \<Rightarrow> kstate" where
  "list_delete timer s = s\<lparr>timer_queue := remove1 timer (timer_queue s)\<rparr>"

definition list_peek_head :: "kstate \<Rightarrow> addr option" where
  "list_peek_head s = (case timer_queue s of [] \<Rightarrow> None | timer # _ \<Rightarrow> Some timer)"

definition list_initialize :: "kstate \<Rightarrow> kstate" where
  "list_initialize s = s\<lparr>timer_queue := []\<rparr>"

text \<open>
  Modelled from the spec: the critical section of kernel/thread.h, which is not among the
  sources: a scoped mutual exclusion that may nest.
\<close>

definition enter_critical_section :: "kstate \<Rightarrow> kstate" where
  "enter_critical_section s = s\<lparr>critical_section_count := Suc (critical_section_count s)\<rparr>"

definition exit_critical_section :: "kstate \<Rightarrow> kstate" where
  "exit_critical_section s = s\<lparr>critical_section_count := critical_section_count s - 1\<rparr>"

definition in_critical_section :: "kstate \<Rightarrow> bool" where
  "in_critical_section s \<longleftrightarrow> 0 < critical_section_count s"

text \<open>
  The platform's timer driver is outside the subsystem. Each call is recorded with the
  delay or period it is given; the handler is always \<open>timer_tick\<close> with a
  \<open>NULL\<close> argument.
\<close>

definition platform_set_oneshot_timer :: "lk_time_t \<Rightarrow> kstate \<Rightarrow> kstate" where
  "platform_set_oneshot_timer delay s = s\<lparr>hw_calls := hw_calls s @ [Set_oneshot_timer delay]\<rparr>"

definition platform_set_periodic_timer :: "lk_time_t \<Rightarrow> kstate \<Rightarrow> kstate" where
  "platform_set_periodic_timer period s = s\<lparr>hw_calls := hw_calls s @ [Set_periodic_timer period]\<rparr>"

definition platform_stop_timer :: "kstate \<Rightarrow> kstate" where
  "platform_stop_timer s = s\<lparr>hw_calls := hw_calls s @ [Stop_timer]\<rparr>"

subsection \<open>timer\_initialize\<close>

text \<open>
  Modelled from the spec: the initializer \<open>TIMER_INITIAL_VALUE\<close> of kernel/timer.h,
  which is not among the sources: it sets the validity tag, clears the linkage and zeroes
  schedule, period and callback; a field that a C initializer does not name is zero.
\<close>

definition TIMER_INITIAL_VALUE :: timer_t where
  "TIMER_INITIAL_VALUE =
     \<lparr>magic = TIMER_MAGIC, scheduled_time = 0, periodic_time = 0, callback = 0, arg = 0\<rparr>"

text \<open>
  Initializing a timer that is linked leaves its neighbours pointing at a node whose own
  links are cleared; the spec calls that undefined by contract, and a sequence of
  addresses cannot represent it. The model answers \<open>None\<close> there.
\<close>

definition timer_initialize :: "addr \<Rightarrow> kstate \<Rightarrow> kstate option" where
  "timer_initialize timer s =
     (if list_in_list s timer then None
      else Some (s\<lparr>timers := (timers s)(timer := TIMER_INITIAL_VALUE)\<rparr>))"

subsection \<open>insert\_timer\_in\_queue\<close>

text \<open>
  The scan of \<open>list_for_every_entry\<close>: before the first entry that is scheduled
  strictly later than the new timer, or at the tail.
\<close>

fun insert_timer_scan :: "(addr \<Rightarrow> timer_t) \<Rightarrow> addr \<Rightarrow> addr list \<Rightarrow> addr list" where
  "insert_timer_scan ts timer [] = [timer]"
| "insert_timer_scan ts timer (entry # rest) =
     (if TIME_GT (scheduled_time (ts entry)) (scheduled_time (ts timer))
      then timer # entry # rest
      else entry # insert_timer_scan ts timer rest)"

definition insert_timer_in_queue :: "addr \<Rightarrow> kstate \<Rightarrow> kstate" where
  "insert_timer_in_queue timer s =
     s\<lparr>timer_queue := insert_timer_scan (timers s) timer (timer_queue s)\<rparr>"

subsection \<open>timer\_set, timer\_set\_oneshot, timer\_set\_periodic\<close>

text \<open>\<open>dyn\<close> is \<open>PLATFORM_HAS_DYNAMIC_TIMER\<close>; \<open>cur\<close> is what \<open>current_time()\<close> returns.\<close>

definition timer_set ::
  "bool \<Rightarrow> lk_time_t \<Rightarrow> addr \<Rightarrow> lk_time_t \<Rightarrow> lk_time_t \<Rightarrow> addr \<Rightarrow> addr \<Rightarrow> kstate \<Rightarrow> error + kstate" where
  "timer_set dyn cur timer delay period cb a s =
     (if magic (timers s timer) \<noteq> TIMER_MAGIC then Inl Assert_failed
      else if list_in_list s timer then Inl Panic
      else
        let now = cur;
            s1 = s\<lparr>timers := (timers s)(timer := (timers s timer)
                   \<lparr>scheduled_time := now + delay, periodic_time := period,
                    callback := cb, arg := a\<rparr>)\<rparr>;
            s2 = enter_critical_section s1;
            s3 = insert_timer_in_queue timer s2;
            s4 = (if dyn \<and> list_peek_head s3 = Some timer
                  then platform_set_oneshot_timer delay s3 else s3)
        in Inr (exit_critical_section s4))"

definition timer_set_oneshot ::
  "bool \<Rightarrow> lk_time_t \<Rightarrow> addr \<Rightarrow> lk_time_t \<Rightarrow> addr \<Rightarrow> addr \<Rightarrow> kstate \<Rightarrow> error + kstate" where
  "timer_set_oneshot dyn cur timer delay cb a s =
     timer_set dyn cur timer (if delay = 0 then 1 else delay) 0 cb a s"

definition timer_set_periodic ::
  "bool \<Rightarrow> lk_time_t \<Rightarrow> addr \<Rightarrow> lk_time_t \<Rightarrow> addr \<Rightarrow> addr \<Rightarrow> kstate \<Rightarrow> error + kstate" where
  "timer_set_periodic dyn cur timer period cb a s =
     (let period = (if period = 0 then 1 else period)
      in timer_set dyn cur timer period period cb a s)"

subsection \<open>timer\_cancel\<close>

definition timer_cancel :: "bool \<Rightarrow> lk_time_t \<Rightarrow> addr \<Rightarrow> kstate \<Rightarrow> error + kstate" where
  "timer_cancel dyn cur timer s =
     (if magic (timers s timer) \<noteq> TIMER_MAGIC then Inl Assert_failed
      else
        let s1 = enter_critical_section s;
            oldhead = list_peek_head s1;
            s2 = (if list_in_list s1 timer then list_delete timer s1 else s1);
            s3 = s2\<lparr>timers := (timers s2)(timer := (timers s2 timer)
                   \<lparr>periodic_time := 0, callback := 0, arg := 0\<rparr>)\<rparr>;
            s4 = (if dyn then
                    (case list_peek_head s3 of
                       None \<Rightarrow> platform_stop_timer s3
                     | Some newhead \<Rightarrow>
                         if Some newhead \<noteq> oldhead then
                           (let now = cur;
                                delay = (if TIME_LT (scheduled_time (timers s3 newhead)) now then 0
                                         else scheduled_time (timers s3 newhead) - now)
                            in platform_set_oneshot_timer delay s3)
                         else s3)
                  else s3)
        in Inr (exit_critical_section s4))"

subsection \<open>timer\_tick\<close>

text \<open>
  The body of the drain loop for a head timer that is due: the assertion on the tag, the
  unlinking, the callback, and the requeue of a periodic timer that the callback left
  unlinked and periodic. The result is the callback's hint and the state.
\<close>

definition timer_tick_fire ::
  "(addr \<Rightarrow> timer_callback) \<Rightarrow> lk_time_t \<Rightarrow> addr \<Rightarrow> kstate \<Rightarrow> error + (handler_return \<times> kstate)" where
  "timer_tick_fire cbs now timer s =
     (if magic (timers s timer) \<noteq> TIMER_MAGIC then Inl Assert_failed
      else
        let s1 = list_delete timer s;
            periodic = (0 < periodic_time (timers s1 timer))
        in case cbs (callback (timers s1 timer)) timer now (arg (timers s1 timer)) s1 of
             Inl e \<Rightarrow> Inl e
           | Inr (r, s2) \<Rightarrow>
               Inr (r,
                 if periodic \<and> \<not> list_in_list s2 timer \<and> 0 < periodic_time (timers s2 timer)
                 then insert_timer_in_queue timer
                        (s2\<lparr>timers := (timers s2)(timer := (timers s2 timer)
                              \<lparr>scheduled_time := now + periodic_time (timers s2 timer)\<rparr>)\<rparr>)
                 else s2))"

text \<open>
  The loop \<open>for (;;)\<close> may run forever, so it takes fuel: one unit for each test at the
  head of the loop, and \<open>None\<close> when the fuel is used up. Besides \<open>ret\<close> the loop
  carries the list of the timers it fired with the hint each callback returned; the code
  keeps no such list, it is there to state what \<open>ret\<close> aggregates.
\<close>

fun timer_tick_loop ::
  "(addr \<Rightarrow> timer_callback) \<Rightarrow> nat \<Rightarrow> lk_time_t \<Rightarrow> handler_return \<Rightarrow> (addr \<times> handler_return) list \<Rightarrow>
   kstate \<Rightarrow> (error + (handler_return \<times> (addr \<times> handler_return) list \<times> kstate)) option" where
  "timer_tick_loop cbs 0 now ret fired s = None"
| "timer_tick_loop cbs (Suc fuel) now ret fired s =
     (case list_peek_head s of
        None \<Rightarrow> Some (Inr (ret, fired, s))
      | Some timer \<Rightarrow>
          if TIME_LT now (scheduled_time (timers s timer)) then Some (Inr (ret, fired, s))
          else
            (case timer_tick_fire cbs now timer s of
               Inl e \<Rightarrow> Some (Inl e)
             | Inr (r, s') \<Rightarrow>
                 timer_tick_loop cbs fuel now
                   (if r = INT_RESCHEDULE then INT_RESCHEDULE else ret)
                   (fired @ [(timer, r)]) s'))"

text \<open>The tail of \<open>timer_tick\<close> on a platform with a dynamic timer.\<close>

definition timer_tick_rearm :: "lk_time_t \<Rightarrow> kstate \<Rightarrow> error + kstate" where
  "timer_tick_rearm now s =
     (case list_peek_head s of
        None \<Rightarrow> Inr s
      | Some timer \<Rightarrow>
          if \<not> TIME_GT (scheduled_time (timers s timer)) now then Inl Assert_failed
          else
            (let delay = scheduled_time (timers s timer) - now
             in Inr (platform_set_oneshot_timer delay s)))"

text \<open>
  \<open>thread_timer_tick\<close> is the hint that the scheduler's hook returns; it is only
  called on a platform without a dynamic timer. The argument \<open>a\<close> is unused, as in
  the code.
\<close>

definition timer_tick ::
  "bool \<Rightarrow> (addr \<Rightarrow> timer_callback) \<Rightarrow> handler_return \<Rightarrow> nat \<Rightarrow> addr \<Rightarrow> lk_time_t \<Rightarrow> kstate \<Rightarrow>
   (error + (handler_return \<times> kstate)) option" where
  "timer_tick dyn cbs thread_timer_tick fuel a now s =
     (case timer_tick_loop cbs fuel now INT_NO_RESCHEDULE [] s of
        None \<Rightarrow> None
      | Some (Inl e) \<Rightarrow> Some (Inl e)
      | Some (Inr (ret, fired, s1)) \<Rightarrow>
          (case (if dyn then timer_tick_rearm now s1 else Inr s1) of
             Inl e \<Rightarrow> Some (Inl e)
           | Inr s2 \<Rightarrow>
               (let ret' = (if \<not> dyn \<and> thread_timer_tick = INT_RESCHEDULE
                            then INT_RESCHEDULE else ret)
                in if \<not> in_critical_section s2 then Some (Inl Assert_failed)
                   else Some (Inr (ret', s2)))))"

subsection \<open>timer\_init\<close>

definition timer_init :: "kstate \<Rightarrow> kstate" where
  "timer_init s = platform_set_periodic_timer 10 (list_initialize s)"

subsection \<open>Clients of the timer interface\<close>

text \<open>
  What a client (a thread, or the callback of a timer) does with the subsystem is a
  sequence of calls of its public operations. Each call carries the value that
  \<open>current_time()\<close> returns inside it.
\<close>

datatype timer_call =
    Call_set_oneshot addr lk_time_t lk_time_t addr addr
  | Call_set_periodic addr lk_time_t lk_time_t addr addr
  | Call_cancel addr lk_time_t

fun run_call :: "bool \<Rightarrow> timer_call \<Rightarrow> kstate \<Rightarrow> error + kstate" where
  "run_call dyn (Call_set_oneshot timer cur delay cb a) s = timer_set_oneshot dyn cur timer delay cb a s"
| "run_call dyn (Call_set_periodic timer cur period cb a) s = timer_set_periodic dyn cur timer period cb a s"
| "run_call dyn (Call_cancel timer cur) s = timer_cancel dyn cur timer s"

fun run_calls :: "bool \<Rightarrow> timer_call list \<Rightarrow> kstate \<Rightarrow> error + kstate" where
  "run_calls dyn [] s = Inr s"
| "run_calls dyn (c # cs) s =
     (case run_call dyn c s of Inl e \<Rightarrow> Inl e | Inr s' \<Rightarrow> run_calls dyn cs s')"

text \<open>
  A callback that only uses the timer interface: from the function pointer, its arguments
  and the state it finds, \<open>body\<close> chooses the calls to make and the hint to return.
\<close>

definition scripted ::
  "bool \<Rightarrow> (addr \<Rightarrow> addr \<Rightarrow> lk_time_t \<Rightarrow> addr \<Rightarrow> kstate \<Rightarrow> timer_call list \<times> handler_return) \<Rightarrow>
   addr \<Rightarrow> timer_callback" where
  "scripted dyn body p timer now a s =
     (case run_calls dyn (fst (body p timer now a s)) s of
        Inl e \<Rightarrow> Inl e
      | Inr s' \<Rightarrow> Inr (snd (body p timer now a s), s'))"

subsection \<open>Predicates of the specification\<close>

text \<open>The queue is sorted ascending by \<open>scheduled_time\<close>.\<close>

definition queue_sorted :: "kstate \<Rightarrow> bool" where
  "queue_sorted s \<longleftrightarrow> sorted (map (\<lambda>e. scheduled_time (timers s e)) (timer_queue s))"

text \<open>A timer is due at \<open>now\<close> when the dispatcher's test does not find it in the future.\<close>

definition due :: "lk_time_t \<Rightarrow> kstate \<Rightarrow> addr \<Rightarrow> bool" where
  "due now s timer \<longleftrightarrow> \<not> TIME_LT now (scheduled_time (timers s timer))"

definition due_count :: "lk_time_t \<Rightarrow> kstate \<Rightarrow> nat" where
  "due_count now s = length (filter (due now s) (timer_queue s))"

text \<open>The sum of a time and a delay does not pass the largest value of \<open>lk_time_t\<close>.\<close>

definition no_wrap :: "lk_time_t \<Rightarrow> lk_time_t \<Rightarrow> bool" where
  "no_wrap t d \<longleftrightarrow> unat t + unat d < 2 ^ 32"

text \<open>
  A call made during a dispatch at \<open>now\<close> reads a current time at or after \<open>now\<close>,
  and the deadline it computes does not wrap around.
\<close>

fun call_after :: "lk_time_t \<Rightarrow> timer_call \<Rightarrow> bool" where
  "call_after now (Call_set_oneshot timer cur delay cb a) \<longleftrightarrow> now \<le> cur \<and> no_wrap cur (max delay 1)"
| "call_after now (Call_set_periodic timer cur period cb a) \<longleftrightarrow> now \<le> cur \<and> no_wrap cur (max period 1)"
| "call_after now (Call_cancel timer cur) \<longleftrightarrow> True"


text \<open>
  The periods of the timers in \<open>A\<close> and of the timers in the queue can be added to
  \<open>now\<close> without wrapping around.
\<close>

definition periods_safe :: "lk_time_t \<Rightarrow> addr set \<Rightarrow> kstate \<Rightarrow> bool" where
  "periods_safe now A s \<longleftrightarrow>
     (\<forall>u \<in> A \<union> set (timer_queue s). no_wrap now (periodic_time (timers s u)))"

subsection \<open>Example states and callbacks\<close>

text \<open>Timers 1 and 2 are queued, in this order, both for time 10; timer 3 has the same deadline.\<close>

definition two_timers_at_10 :: kstate where
  "two_timers_at_10 =
     \<lparr>timers = (\<lambda>_. TIMER_INITIAL_VALUE\<lparr>scheduled_time := 10\<rparr>), timer_queue = [1, 2],
      critical_section_count = 0, hw_calls = []\<rparr>"

text \<open>Timer 1 is queued for time 5 with period 3 and callback 7; every other timer is freshly initialized.\<close>

definition one_linked :: kstate where
  "one_linked =
     \<lparr>timers = (\<lambda>_. TIMER_INITIAL_VALUE)(1 := TIMER_INITIAL_VALUE\<lparr>scheduled_time := 5, periodic_time := 3, callback := 7\<rparr>),
      timer_queue = [1], critical_section_count = 0, hw_calls = []\<rparr>"

text \<open>
  Memory before anything is initialized (every tag invalid), and the state after
  \<open>timer_init\<close> and the initialization of timer 1.
\<close>

definition blank_state :: kstate where
  "blank_state =
     \<lparr>timers = (\<lambda>_. \<lparr>magic = 0, scheduled_time = 0, periodic_time = 0, callback = 0, arg = 0\<rparr>),
      timer_queue = [], critical_section_count = 0, hw_calls = []\<rparr>"

definition initialized_state :: kstate where
  "initialized_state =
     \<lparr>timers = (\<lambda>_. \<lparr>magic = 0, scheduled_time = 0, periodic_time = 0, callback = 0, arg = 0\<rparr>)
                (1 := TIMER_INITIAL_VALUE),
      timer_queue = [], critical_section_count = 0, hw_calls = [Set_periodic_timer 10]\<rparr>"

text \<open>A callback that cancels its own timer and returns the hint \<open>r\<close>.\<close>

definition cancel_self :: "bool \<Rightarrow> lk_time_t \<Rightarrow> handler_return \<Rightarrow> timer_callback" where
  "cancel_self dyn cur r = scripted dyn (\<lambda>p timer now a s. ([Call_cancel timer cur], r)) 0"

text \<open>Callbacks that do nothing and ask for no reschedule, behind every function pointer.\<close>

definition idle_callbacks :: "addr \<Rightarrow> timer_callback" where
  "idle_callbacks p timer now a s = Inr (INT_NO_RESCHEDULE, s)"

text \<open>Callbacks that do nothing; the one behind function pointer 8 asks for a reschedule.\<close>

definition hint_callbacks :: "addr \<Rightarrow> timer_callback" where
  "hint_callbacks p timer now a s =
     Inr (if p = 8 then INT_RESCHEDULE else INT_NO_RESCHEDULE, s)"

text \<open>
  Three one-shot timers queued for the times 3, 5 and 6, inside the critical section: two
  of them are due at time 5.
\<close>

definition two_due :: kstate where
  "two_due =
     \<lparr>timers = (\<lambda>_. TIMER_INITIAL_VALUE)
        (1 := TIMER_INITIAL_VALUE\<lparr>scheduled_time := 3, callback := 7\<rparr>,
         2 := TIMER_INITIAL_VALUE\<lparr>scheduled_time := 5, callback := 8\<rparr>,
         3 := TIMER_INITIAL_VALUE\<lparr>scheduled_time := 6, callback := 8\<rparr>),
      timer_queue = [1, 2, 3], critical_section_count = 1, hw_calls = []\<rparr>"

text \<open>The state \<open>one_linked\<close> after timer 1 has fired at time 6 and has been requeued for time 9.\<close>

definition one_requeued :: kstate where
  "one_requeued =
     \<lparr>timers = (\<lambda>_. TIMER_INITIAL_VALUE)(1 := TIMER_INITIAL_VALUE\<lparr>scheduled_time := 9, periodic_time := 3, callback := 7\<rparr>),
      timer_queue = [1], critical_section_count = 0, hw_calls = []\<rparr>"

text \<open>A callback body that makes no call, and one that arms timer 2 as a one-shot with delay 0.\<close>

definition quiet_body :: "addr \<Rightarrow> addr \<Rightarrow> lk_time_t \<Rightarrow> addr \<Rightarrow> kstate \<Rightarrow> timer_call list \<times> handler_return" where
  "quiet_body p timer now a s = ([], INT_NO_RESCHEDULE)"

definition arming_body :: "addr \<Rightarrow> addr \<Rightarrow> lk_time_t \<Rightarrow> addr \<Rightarrow> kstate \<Rightarrow> timer_call list \<times> handler_return" where
  "arming_body p timer now a s = ([Call_set_oneshot 2 now 0 7 0], INT_RESCHEDULE)"


text \<open>Every timer is initialized and none is armed; the critical section is held.\<close>

definition all_initialized :: kstate where
  "all_initialized =
     \<lparr>timers = (\<lambda>_. TIMER_INITIAL_VALUE), timer_queue = [],
      critical_section_count = 1, hw_calls = []\<rparr>"

text \<open>
  Timer 1 is periodic with a period of \<open>0x80000001\<close> ticks and is queued for
  \<open>0x80000000\<close>: the state after \<open>timer_set_periodic\<close> at the current time
  \<open>0xFFFFFFFF\<close>.
\<close>

definition wrap_state :: kstate where
  "wrap_state =
     \<lparr>timers = (\<lambda>_. TIMER_INITIAL_VALUE)
        (1 := TIMER_INITIAL_VALUE\<lparr>scheduled_time := 0x80000000, periodic_time := 0x80000001, callback := 7\<rparr>),
      timer_queue = [1], critical_section_count = 1, hw_calls = []\<rparr>"

section \<open>Properties\<close>

subsection \<open>Times\<close>

lemma word_le_1_iff: "(d::lk_time_t) \<le> 1 \<longleftrightarrow> d = 0 \<or> d = 1"
  by (simp add: word_le_nat_alt word_unat_eq_iff) arith

lemma coerced_delay_max: "(if d = 0 then 1 else d) = max d (1::lk_time_t)"
  by (auto simp: max_def word_le_1_iff)

lemma no_wrap_future:
  fixes now cur d :: lk_time_t
  assumes "no_wrap cur d" and "now \<le> cur" and "d \<noteq> 0"
  shows "now < cur + d"
proof -
  have "unat (cur + d) = unat cur + unat d"
    using assms(1) by (simp add: no_wrap_def unat_add_lem [THEN iffD1])
  moreover have "0 < unat d"
    using assms(3) by (simp add: unat_gt_0)
  moreover have "unat now \<le> unat cur"
    using assms(2) by (simp add: word_le_nat_alt)
  ultimately show ?thesis
    by (simp add: word_less_nat_alt)
qed

lemma time_difference_positive:
  fixes now t :: lk_time_t
  assumes "now < t"
  shows "0 < t - now \<and> unat (t - now) = unat t - unat now"
  using assms
  by (simp add: unat_sub word_less_nat_alt word_le_nat_alt word_neq_0_conv [symmetric])

subsection \<open>The insertion scan\<close>

lemma insert_timer_scan_split:
  "insert_timer_scan ts timer q =
     takeWhile (\<lambda>e. scheduled_time (ts e) \<le> scheduled_time (ts timer)) q @ timer #
     dropWhile (\<lambda>e. scheduled_time (ts e) \<le> scheduled_time (ts timer)) q"
  by (induction q) (auto simp: TIME_GT_def)

lemma set_insert_timer_scan: "set (insert_timer_scan ts timer q) = insert timer (set q)"
  by (induction q) auto

lemma count_insert_timer_scan:
  "count_list (insert_timer_scan ts timer q) e = count_list q e + (if e = timer then 1 else 0)"
  by (induction q) auto

lemma sorted_dropWhile_later:
  "sorted (map f q) \<Longrightarrow> e \<in> set (dropWhile (\<lambda>e. f e \<le> (x::lk_time_t)) q) \<Longrightarrow> x < f e"
  by (induction q) (auto split: if_splits)

lemma insert_timer_scan_sorted:
  "sorted (map (\<lambda>e. scheduled_time (ts e)) q) \<Longrightarrow>
   sorted (map (\<lambda>e. scheduled_time (ts e)) (insert_timer_scan ts timer q))"
  by (induction q) (auto simp: TIME_GT_def set_insert_timer_scan)

text \<open>
  Claim C1. Inserting a timer into a queue that is sorted ascending by
  \<open>scheduled_time\<close> leaves the queue sorted, and the new timer goes behind every entry
  that was already there with a deadline at or before its own, in particular behind the
  entries with an equal deadline, and in front of the entries with a later one: the old
  queue is \<open>before @ after\<close> and the new one \<open>before @ timer # after\<close>.
\<close>

theorem insert_timer_in_queue_sorted_fifo:
  assumes "queue_sorted s"
  shows "queue_sorted (insert_timer_in_queue timer s) \<and>
         (\<exists>before after.
            timer_queue s = before @ after \<and>
            timer_queue (insert_timer_in_queue timer s) = before @ timer # after \<and>
            (\<forall>e \<in> set before. scheduled_time (timers s e) \<le> scheduled_time (timers s timer)) \<and>
            (\<forall>e \<in> set after. scheduled_time (timers s timer) < scheduled_time (timers s e)))"
proof -
  let ?f = "\<lambda>e. scheduled_time (timers s e)"
  let ?P = "\<lambda>e. ?f e \<le> ?f timer"
  have srt: "sorted (map ?f (timer_queue s))"
    using assms by (simp add: queue_sorted_def)
  have 1: "queue_sorted (insert_timer_in_queue timer s)"
    using insert_timer_scan_sorted [OF srt, of timer]
    by (simp add: queue_sorted_def insert_timer_in_queue_def)
  have 2: "timer_queue s = takeWhile ?P (timer_queue s) @ dropWhile ?P (timer_queue s)"
    by simp
  have 3: "timer_queue (insert_timer_in_queue timer s) =
           takeWhile ?P (timer_queue s) @ timer # dropWhile ?P (timer_queue s)"
    by (simp add: insert_timer_in_queue_def insert_timer_scan_split)
  have 4: "\<forall>e \<in> set (takeWhile ?P (timer_queue s)). ?f e \<le> ?f timer"
    by (auto dest: set_takeWhileD)
  have 5: "\<forall>e \<in> set (dropWhile ?P (timer_queue s)). ?f timer < ?f e"
    using sorted_dropWhile_later [OF srt] by blast
  from 1 2 3 4 5 show ?thesis by blast
qed

theorem insert_timer_in_queue_sorted_fifo_witness:
  "queue_sorted two_timers_at_10 \<and>
   queue_sorted (insert_timer_in_queue 3 two_timers_at_10) \<and>
   timer_queue (insert_timer_in_queue 3 two_timers_at_10) = [1, 2, 3]"
proof -
  have h: "queue_sorted two_timers_at_10"
    by (simp add: queue_sorted_def two_timers_at_10_def)
  have "timer_queue (insert_timer_in_queue 3 two_timers_at_10) = [1, 2, 3]"
    by (simp add: insert_timer_in_queue_def two_timers_at_10_def TIME_GT_def)
  with h insert_timer_in_queue_sorted_fifo [OF h, of 3] show ?thesis
    by blast
qed

subsection \<open>Arming a timer\<close>

lemma timer_set_result:
  assumes "magic (timers s timer) = TIMER_MAGIC" and "\<not> list_in_list s timer"
  shows "\<exists>s'. timer_set dyn cur timer delay period cb a s = Inr s' \<and>
     timers s' = (timers s)(timer := (timers s timer)
         \<lparr>scheduled_time := cur + delay, periodic_time := period, callback := cb, arg := a\<rparr>) \<and>
     timer_queue s' = insert_timer_scan (timers s') timer (timer_queue s) \<and>
     critical_section_count s' = critical_section_count s"
  using assms
  by (simp add: timer_set_def Let_def enter_critical_section_def exit_critical_section_def
      insert_timer_in_queue_def platform_set_oneshot_timer_def)

lemma timer_set_linked:
  assumes "list_in_list s timer"
  shows "timer_set dyn cur timer delay period cb a s =
     Inl (if magic (timers s timer) = TIMER_MAGIC then Panic else Assert_failed)"
  using assms by (simp add: timer_set_def)

lemma timer_set_Inr_unlinked:
  "timer_set dyn cur timer delay period cb a s = Inr s' \<Longrightarrow>
   magic (timers s timer) = TIMER_MAGIC \<and> \<not> list_in_list s timer"
  by (simp add: timer_set_def split: if_splits)

text \<open>
  Claim C3. On a timer that is linked, \<open>timer_set_oneshot\<close> and
  \<open>timer_set_periodic\<close> stop the kernel and return no state: with \<open>panic\<close>
  when the tag is valid, with the failed assertion on the tag otherwise. Whenever one of
  them does return a state, the timer was not linked before and occupies exactly one
  entry of the queue afterwards.
\<close>

theorem timer_set_linked_is_fatal:
  "(list_in_list s timer \<longrightarrow>
      timer_set_oneshot dyn cur timer delay cb a s =
        Inl (if magic (timers s timer) = TIMER_MAGIC then Panic else Assert_failed) \<and>
      timer_set_periodic dyn cur timer period cb a s =
        Inl (if magic (timers s timer) = TIMER_MAGIC then Panic else Assert_failed)) \<and>
   (\<forall>s'. timer_set_oneshot dyn cur timer delay cb a s = Inr s' \<or>
          timer_set_periodic dyn cur timer period cb a s = Inr s' \<longrightarrow>
          \<not> list_in_list s timer \<and> count_list (timer_queue s') timer = 1)"
proof -
  have "count_list (timer_queue s') timer = 1 \<and> \<not> list_in_list s timer"
    if "timer_set dyn cur timer d p cb a s = Inr s'" for d p s'
  proof -
    from timer_set_Inr_unlinked [OF that]
    have ok: "magic (timers s timer) = TIMER_MAGIC" and un: "\<not> list_in_list s timer"
      by simp_all
    from timer_set_result [OF ok un, of dyn cur d p cb a] that
    have "timer_queue s' = insert_timer_scan (timers s') timer (timer_queue s)"
      by auto
    with un show ?thesis
      by (simp add: count_insert_timer_scan list_in_list_def)
  qed
  note succ = this
  have 1: "list_in_list s timer \<longrightarrow>
      timer_set_oneshot dyn cur timer delay cb a s =
        Inl (if magic (timers s timer) = TIMER_MAGIC then Panic else Assert_failed) \<and>
      timer_set_periodic dyn cur timer period cb a s =
        Inl (if magic (timers s timer) = TIMER_MAGIC then Panic else Assert_failed)"
    by (simp add: timer_set_oneshot_def timer_set_periodic_def timer_set_linked Let_def)
  have 2: "\<not> list_in_list s timer \<and> count_list (timer_queue s') timer = 1"
    if "timer_set_oneshot dyn cur timer delay cb a s = Inr s' \<or>
        timer_set_periodic dyn cur timer period cb a s = Inr s'" for s'
    using that succ [of _ _ s'] unfolding timer_set_oneshot_def timer_set_periodic_def Let_def
    by blast
  from 1 2 show ?thesis by blast
qed

theorem timer_set_linked_is_fatal_witness:
  "list_in_list one_linked 1 \<and>
   timer_set_oneshot True 0 1 4 7 0 one_linked = Inl Panic \<and>
   timer_set_periodic True 0 1 4 7 0 one_linked = Inl Panic \<and>
   (\<exists>s'. timer_set_oneshot True 0 2 4 7 0 one_linked = Inr s' \<and>
      count_list (timer_queue s') 2 = 1)"
proof -
  have h: "list_in_list one_linked 1"
    by (simp add: list_in_list_def one_linked_def)
  have m: "magic (timers one_linked 1) = TIMER_MAGIC"
    and m2: "magic (timers one_linked 2) = TIMER_MAGIC"
    and u2: "\<not> list_in_list one_linked 2"
    by (simp_all add: one_linked_def TIMER_INITIAL_VALUE_def list_in_list_def)
  from timer_set_result [OF m2 u2, of True 0 4 0 7 0]
  obtain s' where s': "timer_set_oneshot True 0 2 4 7 0 one_linked = Inr s'"
    by (auto simp: timer_set_oneshot_def)
  from timer_set_linked_is_fatal [of one_linked 1 True 0 4 7 0 4, THEN conjunct1] h m
  have 1: "timer_set_oneshot True 0 1 4 7 0 one_linked = Inl Panic \<and>
           timer_set_periodic True 0 1 4 7 0 one_linked = Inl Panic"
    by simp
  from timer_set_linked_is_fatal [of one_linked 2 True 0 4 7 0 4, THEN conjunct2] s'
  have 2: "count_list (timer_queue s') 2 = 1"
    by blast
  from h 1 2 s' show ?thesis
    by blast
qed

text \<open>
  Claim C5. On a valid timer that is not linked, \<open>timer_set_oneshot\<close> succeeds and
  leaves \<open>scheduled_time = cur + max delay 1\<close> and a zero period;
  \<open>timer_set_periodic\<close> succeeds and leaves both the period \<open>max period 1\<close> and
  \<open>scheduled_time = cur + max period 1\<close>, where \<open>cur\<close> is the current time
  the call reads and the sum is that of \<open>lk_time_t\<close>. Both store the callback and
  its argument and link the timer.
\<close>

theorem timer_set_deadline_and_period:
  assumes "magic (timers s timer) = TIMER_MAGIC" and "\<not> list_in_list s timer"
  shows "(\<exists>s'. timer_set_oneshot dyn cur timer delay cb a s = Inr s' \<and>
            scheduled_time (timers s' timer) = cur + max delay 1 \<and>
            periodic_time (timers s' timer) = 0 \<and>
            callback (timers s' timer) = cb \<and> arg (timers s' timer) = a \<and>
            list_in_list s' timer) \<and>
         (\<exists>s'. timer_set_periodic dyn cur timer period cb a s = Inr s' \<and>
            scheduled_time (timers s' timer) = cur + max period 1 \<and>
            periodic_time (timers s' timer) = max period 1 \<and>
            callback (timers s' timer) = cb \<and> arg (timers s' timer) = a \<and>
            list_in_list s' timer)"
proof -
  have "\<exists>s'. timer_set dyn cur timer d p cb a s = Inr s' \<and>
            scheduled_time (timers s' timer) = cur + d \<and>
            periodic_time (timers s' timer) = p \<and>
            callback (timers s' timer) = cb \<and> arg (timers s' timer) = a \<and>
            list_in_list s' timer" for d p
    using timer_set_result [OF assms, of dyn cur d p cb a]
    by (auto simp: list_in_list_def set_insert_timer_scan)
  then show ?thesis
    by (simp add: timer_set_oneshot_def timer_set_periodic_def Let_def
        coerced_delay_max [symmetric])
qed

theorem timer_set_deadline_and_period_witness:
  "magic (timers one_linked 2) = TIMER_MAGIC \<and> \<not> list_in_list one_linked 2 \<and>
   (\<exists>s'. timer_set_oneshot False 100 2 0 7 9 one_linked = Inr s' \<and>
      scheduled_time (timers s' 2) = 101 \<and> periodic_time (timers s' 2) = 0) \<and>
   (\<exists>s'. timer_set_periodic False 100 2 0 7 9 one_linked = Inr s' \<and>
      scheduled_time (timers s' 2) = 101 \<and> periodic_time (timers s' 2) = 1)"
proof -
  have m: "magic (timers one_linked 2) = TIMER_MAGIC"
    by (simp add: one_linked_def TIMER_INITIAL_VALUE_def)
  have u: "\<not> list_in_list one_linked 2"
    by (simp add: list_in_list_def one_linked_def)
  from timer_set_deadline_and_period [OF m u, of False 100 0 7 9 0] m u show ?thesis
    by simp blast
qed

subsection \<open>Cancelling a timer\<close>

lemma timer_cancel_result:
  assumes "magic (timers s timer) = TIMER_MAGIC"
  shows "\<exists>s'. timer_cancel dyn cur timer s = Inr s' \<and>
     timers s' = (timers s)(timer := (timers s timer)\<lparr>periodic_time := 0, callback := 0, arg := 0\<rparr>) \<and>
     timer_queue s' = remove1 timer (timer_queue s) \<and>
     critical_section_count s' = critical_section_count s"
  using assms
  by (simp add: timer_cancel_def Let_def enter_critical_section_def exit_critical_section_def
      list_in_list_def list_delete_def platform_set_oneshot_timer_def platform_stop_timer_def
      remove1_idem split: option.split)

lemma timer_cancel_Inr_valid:
  "timer_cancel dyn cur timer s = Inr s' \<Longrightarrow> magic (timers s timer) = TIMER_MAGIC"
  by (simp add: timer_cancel_def split: if_splits)

lemma timer_cancel_unarmed:
  assumes "timers s timer = TIMER_INITIAL_VALUE" and "\<not> list_in_list s timer"
  shows "timer_cancel dyn cur timer s =
           Inr (if dyn \<and> timer_queue s = [] then platform_stop_timer s else s)"
proof -
  have t: "(timers s)(timer := (timers s timer)\<lparr>periodic_time := 0, callback := 0, arg := 0\<rparr>) = timers s"
    using assms(1) by (auto simp: TIMER_INITIAL_VALUE_def fun_eq_iff)
  have m: "magic (timers s timer) = TIMER_MAGIC"
    using assms(1) by (simp add: TIMER_INITIAL_VALUE_def)
  show ?thesis
    using assms(2) m
    by (cases "timer_queue s")
       (simp_all add: timer_cancel_def Let_def enter_critical_section_def exit_critical_section_def
          list_in_list_def platform_stop_timer_def list_peek_head_def t)
qed

text \<open>
  Claim C6. On a valid timer, whatever its link state, \<open>timer_cancel\<close> succeeds,
  removes the timer from the queue and leaves the other entries in their order, sets the
  period, the callback and the argument to zero, and leaves the deadline, the tag and every
  other timer as they were. When the head timer is fired and its callback cancels it, the
  dispatcher does not requeue it: after the iteration the timer is not linked and its
  period is zero.
\<close>

theorem timer_cancel_unlinks_and_clears:
  assumes "magic (timers s timer) = TIMER_MAGIC"
  shows "(\<exists>s'. timer_cancel dyn cur timer s = Inr s' \<and>
            timer_queue s' = remove1 timer (timer_queue s) \<and>
            (distinct (timer_queue s) \<longrightarrow> \<not> list_in_list s' timer) \<and>
            periodic_time (timers s' timer) = 0 \<and>
            callback (timers s' timer) = 0 \<and>
            arg (timers s' timer) = 0 \<and>
            scheduled_time (timers s' timer) = scheduled_time (timers s timer) \<and>
            magic (timers s' timer) = magic (timers s timer) \<and>
            (\<forall>u. u \<noteq> timer \<longrightarrow> timers s' u = timers s u)) \<and>
         (list_peek_head s = Some timer \<and> distinct (timer_queue s) \<and>
          cbs (callback (timers s timer)) = cancel_self dyn cur r \<longrightarrow>
            (\<exists>s'. timer_tick_fire cbs now timer s = Inr (r, s') \<and>
               \<not> list_in_list s' timer \<and> periodic_time (timers s' timer) = 0))"
proof -
  have 1: "\<exists>s'. timer_cancel dyn cur timer s = Inr s' \<and>
            timer_queue s' = remove1 timer (timer_queue s) \<and>
            (distinct (timer_queue s) \<longrightarrow> \<not> list_in_list s' timer) \<and>
            periodic_time (timers s' timer) = 0 \<and>
            callback (timers s' timer) = 0 \<and>
            arg (timers s' timer) = 0 \<and>
            scheduled_time (timers s' timer) = scheduled_time (timers s timer) \<and>
            magic (timers s' timer) = magic (timers s timer) \<and>
            (\<forall>u. u \<noteq> timer \<longrightarrow> timers s' u = timers s u)"
    using timer_cancel_result [OF assms, of dyn cur]
    by (auto simp: list_in_list_def)
  have 2: "\<exists>s'. timer_tick_fire cbs now timer s = Inr (r, s') \<and>
               \<not> list_in_list s' timer \<and> periodic_time (timers s' timer) = 0"
    if hd: "list_peek_head s = Some timer" and dist: "distinct (timer_queue s)"
      and cb: "cbs (callback (timers s timer)) = cancel_self dyn cur r"
  proof -
    let ?s1 = "list_delete timer s"
    have m1: "magic (timers ?s1 timer) = TIMER_MAGIC"
      using assms by (simp add: list_delete_def)
    from timer_cancel_result [OF m1, of dyn cur] obtain s2 where
      c: "timer_cancel dyn cur timer ?s1 = Inr s2"
      and t2: "timers s2 = (timers ?s1)(timer := (timers ?s1 timer)\<lparr>periodic_time := 0, callback := 0, arg := 0\<rparr>)"
      and q2: "timer_queue s2 = remove1 timer (timer_queue ?s1)"
      by blast
    have un: "\<not> list_in_list s2 timer"
      using dist q2 by (simp add: list_in_list_def list_delete_def)
    have p0: "periodic_time (timers s2 timer) = 0"
      using t2 by simp
    have "timer_tick_fire cbs now timer s = Inr (r, s2)"
      using assms c p0
      by (simp add: timer_tick_fire_def Let_def cb cancel_self_def scripted_def list_delete_def)
    with un p0 show ?thesis by blast
  qed
  from 1 2 show ?thesis by blast
qed

theorem timer_cancel_unlinks_and_clears_witness:
  "magic (timers one_linked 1) = TIMER_MAGIC \<and>
   list_peek_head one_linked = Some 1 \<and> distinct (timer_queue one_linked) \<and>
   0 < periodic_time (timers one_linked 1) \<and>
   (\<exists>s'. timer_cancel True 5 1 one_linked = Inr s' \<and> timer_queue s' = [] \<and>
      periodic_time (timers s' 1) = 0) \<and>
   (\<exists>s'. timer_tick_fire (\<lambda>p. cancel_self True 5 INT_RESCHEDULE) 5 1 one_linked =
            Inr (INT_RESCHEDULE, s') \<and> \<not> list_in_list s' 1)"
proof -
  have m: "magic (timers one_linked 1) = TIMER_MAGIC"
    by (simp add: one_linked_def TIMER_INITIAL_VALUE_def)
  have h: "list_peek_head one_linked = Some 1"
    by (simp add: list_peek_head_def one_linked_def)
  have d: "distinct (timer_queue one_linked)"
    by (simp add: one_linked_def)
  have p: "0 < periodic_time (timers one_linked 1)"
    by (simp add: one_linked_def)
  have q: "remove1 1 (timer_queue one_linked) = []"
    by (simp add: one_linked_def)
  from timer_cancel_unlinks_and_clears
         [where s = one_linked and timer = 1 and dyn = True and cur = 5 and r = INT_RESCHEDULE
            and cbs = "\<lambda>p. cancel_self True 5 INT_RESCHEDULE" and now = 5, OF m]
       m h d p q
  show ?thesis
    by simp blast
qed

text \<open>
  Claim C9, amended. Cancelling a timer that holds its initial value and is not linked
  succeeds and changes neither a timer, nor the queue, nor the depth of the critical
  section. On a platform without a dynamic timer, or when the queue is not empty, the
  state is unchanged altogether; on a platform with a dynamic timer and an empty queue the
  call stops the hardware timer with \<open>platform_stop_timer\<close>.
\<close>

theorem timer_cancel_never_armed:
  assumes "timers s timer = TIMER_INITIAL_VALUE" and "\<not> list_in_list s timer"
  shows "timer_cancel dyn cur timer s =
           Inr (if dyn \<and> timer_queue s = [] then platform_stop_timer s else s) \<and>
         timers (platform_stop_timer s) = timers s \<and>
         timer_queue (platform_stop_timer s) = timer_queue s \<and>
         critical_section_count (platform_stop_timer s) = critical_section_count s"
  using timer_cancel_unarmed [OF assms] by (simp add: platform_stop_timer_def)

theorem timer_cancel_never_armed_witness:
  "timer_initialize 1 (timer_init blank_state) = Some initialized_state \<and>
   timers initialized_state 1 = TIMER_INITIAL_VALUE \<and> \<not> list_in_list initialized_state 1 \<and>
   timer_cancel False 0 1 initialized_state = Inr initialized_state"
proof -
  have i: "timer_initialize 1 (timer_init blank_state) = Some initialized_state"
    by (simp add: timer_initialize_def timer_init_def blank_state_def initialized_state_def
        list_initialize_def platform_set_periodic_timer_def list_in_list_def)
  have t: "timers initialized_state 1 = TIMER_INITIAL_VALUE"
    by (simp add: initialized_state_def)
  have u: "\<not> list_in_list initialized_state 1"
    by (simp add: initialized_state_def list_in_list_def)
  from timer_cancel_never_armed [OF t u, of False 0] i t u show ?thesis
    by simp
qed

text \<open>
  The claim as stated (no observable effect) fails on a platform with a dynamic timer:
  after \<open>timer_init\<close> has registered the periodic tick and timer 1 has been
  initialized, cancelling timer 1 calls \<open>platform_stop_timer\<close>.
\<close>

theorem timer_cancel_never_armed_counterexample:
  "timer_initialize 1 (timer_init blank_state) = Some initialized_state \<and>
   hw_calls initialized_state = [Set_periodic_timer 10] \<and>
   timer_cancel True 0 1 initialized_state =
     Inr (initialized_state\<lparr>hw_calls := [Set_periodic_timer 10, Stop_timer]\<rparr>) \<and>
   timer_cancel True 0 1 initialized_state \<noteq> Inr initialized_state"
  by (simp add: timer_initialize_def timer_init_def blank_state_def initialized_state_def
        list_initialize_def platform_set_periodic_timer_def list_in_list_def
        timer_cancel_def Let_def enter_critical_section_def exit_critical_section_def
        platform_stop_timer_def list_peek_head_def TIMER_INITIAL_VALUE_def)

subsection \<open>The dispatcher\<close>

lemma distinct_insert_timer_scan:
  "distinct q \<Longrightarrow> timer \<notin> set q \<Longrightarrow> distinct (insert_timer_scan ts timer q)"
  by (induction q) (auto simp: set_insert_timer_scan)

lemma timer_tick_fire_result:
  assumes "magic (timers s timer) = TIMER_MAGIC"
    and "cbs (callback (timers s timer)) timer now (arg (timers s timer)) (list_delete timer s) = Inr (r, s2)"
  shows "timer_tick_fire cbs now timer s =
     Inr (r, if 0 < periodic_time (timers s timer) \<and> \<not> list_in_list s2 timer \<and>
                0 < periodic_time (timers s2 timer)
             then insert_timer_in_queue timer
                    (s2\<lparr>timers := (timers s2)(timer := (timers s2 timer)
                          \<lparr>scheduled_time := now + periodic_time (timers s2 timer)\<rparr>)\<rparr>)
             else s2)"
  using assms by (simp add: timer_tick_fire_def Let_def list_delete_def)

text \<open>
  Claim C2. A due timer is popped and its callback returns the state \<open>s2\<close>. If the
  period was nonzero when the timer was popped, and in \<open>s2\<close> the timer is not
  linked and its period is nonzero, then the dispatcher sets \<open>scheduled_time\<close> to
  \<open>now\<close> plus the period found in \<open>s2\<close>, whatever the missed deadline was,
  and inserts the timer, which then occupies exactly one entry. In every other case the
  dispatcher leaves \<open>s2\<close> as the callback left it. Either way a queue without
  duplicates stays without duplicates.
\<close>

theorem timer_tick_fire_requeue:
  assumes "magic (timers s timer) = TIMER_MAGIC"
    and "cbs (callback (timers s timer)) timer now (arg (timers s timer)) (list_delete timer s) =
           Inr (r, s2)"
  shows "\<exists>s3. timer_tick_fire cbs now timer s = Inr (r, s3) \<and>
     (if 0 < periodic_time (timers s timer) \<and> \<not> list_in_list s2 timer \<and>
         0 < periodic_time (timers s2 timer)
      then scheduled_time (timers s3 timer) = now + periodic_time (timers s2 timer) \<and>
           periodic_time (timers s3 timer) = periodic_time (timers s2 timer) \<and>
           (\<forall>u. u \<noteq> timer \<longrightarrow> timers s3 u = timers s2 u) \<and>
           (\<exists>before after. timer_queue s2 = before @ after \<and>
                            timer_queue s3 = before @ timer # after) \<and>
           count_list (timer_queue s3) timer = 1
      else s3 = s2) \<and>
     (distinct (timer_queue s2) \<longrightarrow> distinct (timer_queue s3))"
proof (cases "0 < periodic_time (timers s timer) \<and> \<not> list_in_list s2 timer \<and>
         0 < periodic_time (timers s2 timer)")
  case False
  with timer_tick_fire_result [of s timer cbs now r s2, OF assms] show ?thesis
    by auto
next
  case True
  define s3 where "s3 = insert_timer_in_queue timer
     (s2\<lparr>timers := (timers s2)(timer := (timers s2 timer)
          \<lparr>scheduled_time := now + periodic_time (timers s2 timer)\<rparr>)\<rparr>)"
  let ?P = "\<lambda>e. scheduled_time (timers s3 e) \<le> scheduled_time (timers s3 timer)"
  have un: "timer \<notin> set (timer_queue s2)"
    using True by (simp add: list_in_list_def)
  have f: "timer_tick_fire cbs now timer s = Inr (r, s3)"
    using timer_tick_fire_result [of s timer cbs now r s2, OF assms] True by (simp add: s3_def)
  have q3: "timer_queue s3 = insert_timer_scan (timers s3) timer (timer_queue s2)"
    by (simp add: s3_def insert_timer_in_queue_def)
  have a: "scheduled_time (timers s3 timer) = now + periodic_time (timers s2 timer)"
    and b: "periodic_time (timers s3 timer) = periodic_time (timers s2 timer)"
    and c: "\<forall>u. u \<noteq> timer \<longrightarrow> timers s3 u = timers s2 u"
    by (simp_all add: s3_def insert_timer_in_queue_def)
  have "timer_queue s2 = takeWhile ?P (timer_queue s2) @ dropWhile ?P (timer_queue s2) \<and>
        timer_queue s3 = takeWhile ?P (timer_queue s2) @ timer # dropWhile ?P (timer_queue s2)"
    unfolding q3 by (simp add: insert_timer_scan_split)
  then have d: "\<exists>before after. timer_queue s2 = before @ after \<and>
                  timer_queue s3 = before @ timer # after"
    by blast
  have e: "count_list (timer_queue s3) timer = 1"
    unfolding q3 using un by (simp add: count_insert_timer_scan)
  have g: "distinct (timer_queue s2) \<longrightarrow> distinct (timer_queue s3)"
    unfolding q3 using un by (simp add: distinct_insert_timer_scan)
  from f a b c d e g True show ?thesis
    by (intro exI [of _ s3]) simp
qed

theorem timer_tick_fire_requeue_witness:
  "magic (timers one_linked 1) = TIMER_MAGIC \<and>
   idle_callbacks (callback (timers one_linked 1)) 1 6 (arg (timers one_linked 1))
     (list_delete 1 one_linked) = Inr (INT_NO_RESCHEDULE, list_delete 1 one_linked) \<and>
   0 < periodic_time (timers one_linked 1) \<and> \<not> list_in_list (list_delete 1 one_linked) 1 \<and>
   (\<exists>s3. timer_tick_fire idle_callbacks 6 1 one_linked = Inr (INT_NO_RESCHEDULE, s3) \<and>
      scheduled_time (timers s3 1) = 9 \<and> count_list (timer_queue s3) 1 = 1)"
proof -
  have m: "magic (timers one_linked 1) = TIMER_MAGIC"
    by (simp add: one_linked_def TIMER_INITIAL_VALUE_def)
  have c: "idle_callbacks (callback (timers one_linked 1)) 1 6 (arg (timers one_linked 1))
     (list_delete 1 one_linked) = Inr (INT_NO_RESCHEDULE, list_delete 1 one_linked)"
    by (simp add: idle_callbacks_def)
  have p: "0 < periodic_time (timers one_linked 1)"
    and p': "periodic_time (timers (list_delete 1 one_linked) 1) = 3"
    and u: "\<not> list_in_list (list_delete 1 one_linked) 1"
    by (simp_all add: one_linked_def list_delete_def list_in_list_def)
  from timer_tick_fire_requeue [of one_linked 1 idle_callbacks 6 INT_NO_RESCHEDULE
         "list_delete 1 one_linked", OF m c] m c p p' u
  show ?thesis
    by simp blast
qed

lemma list_delete_head:
  "timer_queue s = timer # rest \<Longrightarrow> list_delete timer s = s\<lparr>timer_queue := rest\<rparr>"
  by (simp add: list_delete_def)

text \<open>
  Claim C4. At the head of the drain loop, at time \<open>now\<close>, with fuel for the
  test: when the queue is empty, or its head is scheduled strictly after \<open>now\<close>,
  the loop stops with the state, the hint and the list of fired timers as they are. When
  the head is scheduled at or before \<open>now\<close> (a deadline equal to \<open>now\<close> is
  due) and its tag is valid, the callback of the head is invoked on the state whose queue
  is the rest of the queue, in which the timer is not linked; if the callback returns,
  the timer is recorded as fired and the loop goes on from the state the iteration leaves.
\<close>

theorem timer_tick_loop_head:
  assumes "distinct (timer_queue s)"
  shows "case timer_queue s of
           [] \<Rightarrow> timer_tick_loop cbs (Suc fuel) now ret fired s = Some (Inr (ret, fired, s))
         | timer # rest \<Rightarrow>
             if now < scheduled_time (timers s timer)
             then timer_tick_loop cbs (Suc fuel) now ret fired s = Some (Inr (ret, fired, s))
             else magic (timers s timer) = TIMER_MAGIC \<longrightarrow>
               timer \<notin> set rest \<and>
               (case cbs (callback (timers s timer)) timer now (arg (timers s timer))
                       (s\<lparr>timer_queue := rest\<rparr>) of
                  Inl e \<Rightarrow> timer_tick_loop cbs (Suc fuel) now ret fired s = Some (Inl e)
                | Inr (r, s2) \<Rightarrow>
                    \<exists>s3. timer_tick_fire cbs now timer s = Inr (r, s3) \<and>
                      timer_tick_loop cbs (Suc fuel) now ret fired s =
                        timer_tick_loop cbs fuel now
                          (if r = INT_RESCHEDULE then INT_RESCHEDULE else ret)
                          (fired @ [(timer, r)]) s3)"
proof (cases "timer_queue s")
  case Nil
  then show ?thesis
    by (simp add: list_peek_head_def)
next
  case (Cons timer rest)
  show ?thesis
  proof (cases "now < scheduled_time (timers s timer)")
    case True
    with Cons show ?thesis
      by (simp add: list_peek_head_def TIME_LT_def)
  next
    case False
    have un: "timer \<notin> set rest"
      using assms Cons by simp
    have del: "list_delete timer s = s\<lparr>timer_queue := rest\<rparr>"
      using Cons by (rule list_delete_head)
    have hd: "list_peek_head s = Some timer"
      using Cons by (simp add: list_peek_head_def)
    have "case cbs (callback (timers s timer)) timer now (arg (timers s timer))
                       (s\<lparr>timer_queue := rest\<rparr>) of
                  Inl e \<Rightarrow> timer_tick_loop cbs (Suc fuel) now ret fired s = Some (Inl e)
                | Inr (r, s2) \<Rightarrow>
                    \<exists>s3. timer_tick_fire cbs now timer s = Inr (r, s3) \<and>
                      timer_tick_loop cbs (Suc fuel) now ret fired s =
                        timer_tick_loop cbs fuel now
                          (if r = INT_RESCHEDULE then INT_RESCHEDULE else ret)
                          (fired @ [(timer, r)]) s3"
      if m: "magic (timers s timer) = TIMER_MAGIC"
    proof (cases "cbs (callback (timers s timer)) timer now (arg (timers s timer))
                       (s\<lparr>timer_queue := rest\<rparr>)")
      case (Inl e)
      then have "timer_tick_fire cbs now timer s = Inl e"
        using m by (simp add: timer_tick_fire_def Let_def del)
      with Inl hd False show ?thesis
        by (simp add: TIME_LT_def)
    next
      case (Inr p)
      obtain r s2 where p: "p = (r, s2)" by (cases p)
      from Inr p have c: "cbs (callback (timers s timer)) timer now (arg (timers s timer))
                       (list_delete timer s) = Inr (r, s2)"
        by (simp add: del)
      from timer_tick_fire_result [of s timer cbs now r s2, OF m c]
      obtain s3 where f: "timer_tick_fire cbs now timer s = Inr (r, s3)"
        by blast
      with Inr p hd False show ?thesis
        by (simp add: TIME_LT_def)
    qed
    with Cons False un show ?thesis
      by simp
  qed
qed

theorem timer_tick_loop_head_witness:
  "distinct (timer_queue two_due) \<and>
   timer_tick_loop hint_callbacks (Suc (Suc (Suc 0))) 5 INT_NO_RESCHEDULE [] two_due =
     Some (Inr (INT_RESCHEDULE, [(1, INT_NO_RESCHEDULE), (2, INT_RESCHEDULE)],
                two_due\<lparr>timer_queue := [3]\<rparr>))"
proof -
  have d: "distinct (timer_queue two_due)"
    and q: "timer_queue two_due = [1, 2, 3]"
    and t: "scheduled_time (timers two_due 1) = 3" "magic (timers two_due 1) = TIMER_MAGIC"
    by (simp_all add: two_due_def TIMER_INITIAL_VALUE_def)
  from timer_tick_loop_head [OF d, of hint_callbacks "Suc (Suc 0)" 5 INT_NO_RESCHEDULE "[]"]
  have "\<exists>s3. timer_tick_fire hint_callbacks 5 1 two_due = Inr (INT_NO_RESCHEDULE, s3) \<and>
          timer_tick_loop hint_callbacks (Suc (Suc (Suc 0))) 5 INT_NO_RESCHEDULE [] two_due =
          timer_tick_loop hint_callbacks (Suc (Suc 0)) 5 INT_NO_RESCHEDULE [(1, INT_NO_RESCHEDULE)] s3"
    unfolding q list.case t
    by (simp add: hint_callbacks_def two_due_def del: timer_tick_loop.simps)
  then obtain s3 where
    f: "timer_tick_fire hint_callbacks 5 1 two_due = Inr (INT_NO_RESCHEDULE, s3)"
    and l: "timer_tick_loop hint_callbacks (Suc (Suc (Suc 0))) 5 INT_NO_RESCHEDULE [] two_due =
          timer_tick_loop hint_callbacks (Suc (Suc 0)) 5 INT_NO_RESCHEDULE [(1, INT_NO_RESCHEDULE)] s3"
    by blast
  from f have "s3 = two_due\<lparr>timer_queue := [2, 3]\<rparr>"
    by (simp add: two_due_def hint_callbacks_def timer_tick_fire_def
      TIMER_INITIAL_VALUE_def list_delete_def Let_def list_in_list_def)
  then have "timer_tick_loop hint_callbacks (Suc (Suc 0)) 5 INT_NO_RESCHEDULE [(1, INT_NO_RESCHEDULE)] s3 =
     Some (Inr (INT_RESCHEDULE, [(1, INT_NO_RESCHEDULE), (2, INT_RESCHEDULE)],
                two_due\<lparr>timer_queue := [3]\<rparr>))"
    by (simp add: two_due_def hint_callbacks_def list_peek_head_def TIME_LT_def timer_tick_fire_def
      TIMER_INITIAL_VALUE_def list_delete_def Let_def list_in_list_def)
  with l d show ?thesis
    by (simp del: timer_tick_loop.simps)
qed


lemma timer_tick_loop_exit:
  "timer_tick_loop cbs fuel now ret fired s = Some (Inr (ret', fired', s')) \<Longrightarrow>
   (case list_peek_head s' of None \<Rightarrow> True
    | Some timer \<Rightarrow> TIME_LT now (scheduled_time (timers s' timer)))"
proof (induction fuel arbitrary: ret fired s)
  case 0
  then show ?case by simp
next
  case (Suc fuel)
  show ?case
  proof (cases "list_peek_head s")
    case None
    with Suc.prems show ?thesis by auto
  next
    case (Some timer)
    show ?thesis
    proof (cases "TIME_LT now (scheduled_time (timers s timer))")
      case True
      with Some Suc.prems show ?thesis by auto
    next
      case False
      with Some Suc.prems obtain r s1 where
        l: "timer_tick_loop cbs fuel now (if r = INT_RESCHEDULE then INT_RESCHEDULE else ret)
                  (fired @ [(timer, r)]) s1 = Some (Inr (ret', fired', s'))"
        by (auto split: sum.splits)
      from Suc.IH [OF l] show ?thesis .
    qed
  qed
qed

lemma one_linked_loop:
  "timer_tick_loop idle_callbacks (Suc (Suc 0)) 6 INT_NO_RESCHEDULE [] one_linked =
     Some (Inr (INT_NO_RESCHEDULE, [(1, INT_NO_RESCHEDULE)], one_requeued))"
  by (simp add: one_linked_def one_requeued_def idle_callbacks_def list_peek_head_def TIME_LT_def
      TIME_GT_def timer_tick_fire_def insert_timer_in_queue_def
      TIMER_INITIAL_VALUE_def list_delete_def Let_def list_in_list_def)



text \<open>
  Claim C8. When the drain loop at time \<open>now\<close> has finished in the state
  \<open>s1\<close>: if the queue is empty, the re-arm step of a dynamic-timer platform leaves
  the state as it is and programs no hardware timer; otherwise the head is scheduled
  strictly after \<open>now\<close>, so the assertion \<open>TIME_GT(scheduled_time, now)\<close>
  holds, the delay \<open>scheduled_time - now\<close> is positive and equals the difference of
  the two times as numbers, and the step programs the one-shot timer with that delay.
\<close>

theorem timer_tick_rearm_positive:
  assumes "timer_tick_loop cbs fuel now ret fired s = Some (Inr (ret', fired', s1))"
  shows "case timer_queue s1 of
           [] \<Rightarrow> timer_tick_rearm now s1 = Inr s1
         | timer # rest \<Rightarrow>
             now < scheduled_time (timers s1 timer) \<and>
             TIME_GT (scheduled_time (timers s1 timer)) now \<and>
             0 < scheduled_time (timers s1 timer) - now \<and>
             unat (scheduled_time (timers s1 timer) - now) =
               unat (scheduled_time (timers s1 timer)) - unat now \<and>
             timer_tick_rearm now s1 =
               Inr (platform_set_oneshot_timer (scheduled_time (timers s1 timer) - now) s1)"
proof (cases "timer_queue s1")
  case Nil
  then show ?thesis
    by (simp add: timer_tick_rearm_def list_peek_head_def)
next
  case (Cons timer rest)
  with timer_tick_loop_exit [OF assms] have lt: "now < scheduled_time (timers s1 timer)"
    by (simp add: list_peek_head_def TIME_LT_def)
  from time_difference_positive [OF lt] lt Cons show ?thesis
    by (simp add: timer_tick_rearm_def list_peek_head_def TIME_GT_def Let_def)
qed

theorem timer_tick_rearm_positive_witness:
  "timer_tick_loop idle_callbacks (Suc (Suc 0)) 6 INT_NO_RESCHEDULE [] one_linked =
     Some (Inr (INT_NO_RESCHEDULE, [(1, INT_NO_RESCHEDULE)], one_requeued)) \<and>
   timer_tick_rearm 6 one_requeued = Inr (one_requeued\<lparr>hw_calls := [Set_oneshot_timer 3]\<rparr>)"
proof -
  note l = one_linked_loop
  from timer_tick_rearm_positive [OF l] l show ?thesis
    by (simp add: one_requeued_def platform_set_oneshot_timer_def del: timer_tick_loop.simps)
qed

subsection \<open>The callers of the insertion keep the queue sorted\<close>

text \<open>
  \<open>timer_set\<close> and the requeue of the dispatcher write the deadline of a timer that
  is not linked and then insert it; \<open>timer_cancel\<close> only removes an entry. Each of
  them takes a sorted queue to a sorted queue.
\<close>

lemma map_scheduled_time_unlinked:
  "timer \<notin> set q \<Longrightarrow>
   map (\<lambda>e. scheduled_time ((ts(timer := v)) e)) q = map (\<lambda>e. scheduled_time (ts e)) q"
  by (induction q) auto

lemma queue_sorted_unlinked_update:
  assumes "\<not> list_in_list s timer"
  shows "queue_sorted (s\<lparr>timers := (timers s)(timer := v)\<rparr>) = queue_sorted s"
proof -
  have un: "timer \<notin> set (timer_queue s)"
    using assms by (simp add: list_in_list_def)
  have "queue_sorted (s\<lparr>timers := (timers s)(timer := v)\<rparr>) =
        sorted (map (\<lambda>e. scheduled_time (((timers s)(timer := v)) e)) (timer_queue s))"
    by (simp add: queue_sorted_def del: fun_upd_apply)
  also have "\<dots> = sorted (map (\<lambda>e. scheduled_time (timers s e)) (timer_queue s))"
    by (simp only: map_scheduled_time_unlinked [OF un])
  finally show ?thesis
    by (simp only: queue_sorted_def)
qed

lemma insert_timer_in_queue_sorted:
  "queue_sorted s \<Longrightarrow> queue_sorted (insert_timer_in_queue timer s)"
  using insert_timer_scan_sorted [of "timers s" "timer_queue s" timer]
  by (simp add: queue_sorted_def insert_timer_in_queue_def)

lemma timer_set_sorted:
  assumes r: "timer_set dyn cur timer d p cb a s = Inr s'" and srt: "queue_sorted s"
  shows "queue_sorted s'"
proof -
  from timer_set_Inr_unlinked [OF r]
  have ok: "magic (timers s timer) = TIMER_MAGIC" and un: "\<not> list_in_list s timer"
    by simp_all
  let ?v = "(timers s timer)\<lparr>scheduled_time := cur + d, periodic_time := p, callback := cb, arg := a\<rparr>"
  let ?s1 = "s\<lparr>timers := (timers s)(timer := ?v)\<rparr>"
  from timer_set_result [OF ok un, of dyn cur d p cb a] r
  have t: "timers s' = timers ?s1"
    and q: "timer_queue s' = timer_queue (insert_timer_in_queue timer ?s1)"
    by (auto simp: insert_timer_in_queue_def)
  have "queue_sorted ?s1"
    using srt un by (simp add: queue_sorted_unlinked_update)
  then have "queue_sorted (insert_timer_in_queue timer ?s1)"
    by (rule insert_timer_in_queue_sorted)
  then show ?thesis
    by (simp add: queue_sorted_def t q insert_timer_in_queue_def)
qed

lemma timer_cancel_sorted:
  assumes r: "timer_cancel dyn cur timer s = Inr s'" and srt: "queue_sorted s"
  shows "queue_sorted s'"
proof -
  from timer_cancel_result [OF timer_cancel_Inr_valid [OF r], of dyn cur] r
  have t: "timers s' = (timers s)(timer := (timers s timer)\<lparr>periodic_time := 0, callback := 0, arg := 0\<rparr>)"
    and q: "timer_queue s' = remove1 timer (timer_queue s)"
    by auto
  have "(\<lambda>e. scheduled_time (timers s' e)) = (\<lambda>e. scheduled_time (timers s e))"
    by (auto simp: t fun_eq_iff)
  with srt show ?thesis
    by (simp add: queue_sorted_def q sorted_map_remove1)
qed

lemma timer_tick_fire_sorted:
  assumes m: "magic (timers s timer) = TIMER_MAGIC"
    and c: "cbs (callback (timers s timer)) timer now (arg (timers s timer)) (list_delete timer s) =
              Inr (r, s2)"
    and srt: "queue_sorted s2"
    and f: "timer_tick_fire cbs now timer s = Inr (r', s3)"
  shows "queue_sorted s3"
proof -
  let ?requeue = "0 < periodic_time (timers s timer) \<and> \<not> list_in_list s2 timer \<and>
                  0 < periodic_time (timers s2 timer)"
  let ?s = "s2\<lparr>timers := (timers s2)(timer := (timers s2 timer)
              \<lparr>scheduled_time := now + periodic_time (timers s2 timer)\<rparr>)\<rparr>"
  from timer_tick_fire_result [of s timer cbs now r s2, OF m c] f
  have s3: "s3 = (if ?requeue then insert_timer_in_queue timer ?s else s2)"
    by simp
  show ?thesis
  proof (cases ?requeue)
    case False
    with s3 srt show ?thesis by simp
  next
    case True
    then have "queue_sorted ?s"
      using srt by (simp add: queue_sorted_unlinked_update)
    then have "queue_sorted (insert_timer_in_queue timer ?s)"
      by (rule insert_timer_in_queue_sorted)
    with True s3 show ?thesis by simp
  qed
qed

subsection \<open>Termination of the drain loop\<close>

lemma no_wrap_zero: "no_wrap t 0"
  using unsigned_less [of t, where 'a = nat] by (simp add: no_wrap_def)

lemma no_wrap_earlier: "no_wrap cur d \<Longrightarrow> now \<le> cur \<Longrightarrow> no_wrap now d"
  by (simp add: no_wrap_def word_le_nat_alt)

lemma length_filter_insert_timer_scan:
  "length (filter P (insert_timer_scan ts timer q)) =
     length (filter P q) + (if P timer then 1 else 0)"
  by (induction q) auto

lemma length_filter_remove1: "length (filter P (remove1 x q)) \<le> length (filter P q)"
  by (induction q) auto

lemma timer_set_due_count:
  assumes r: "timer_set dyn cur timer d p cb a s = Inr s'"
    and nw: "no_wrap cur d" and cur: "now \<le> cur" and d: "d \<noteq> 0"
  shows "due_count now s' = due_count now s"
proof -
  from timer_set_Inr_unlinked [OF r]
  have ok: "magic (timers s timer) = TIMER_MAGIC" and un: "\<not> list_in_list s timer"
    by simp_all
  from timer_set_result [OF ok un, of dyn cur d p cb a] r
  have t: "timers s' = (timers s)(timer := (timers s timer)
         \<lparr>scheduled_time := cur + d, periodic_time := p, callback := cb, arg := a\<rparr>)"
    and q: "timer_queue s' = insert_timer_scan (timers s') timer (timer_queue s)"
    by auto
  have nd: "\<not> due now s' timer"
    using no_wrap_future [OF nw cur d] by (simp add: due_def TIME_LT_def t)
  have same: "filter (due now s') (timer_queue s) = filter (due now s) (timer_queue s)"
    using un by (intro filter_cong) (auto simp: due_def t list_in_list_def)
  show ?thesis
    by (simp add: due_count_def q length_filter_insert_timer_scan nd same)
qed

lemma timer_set_periods_safe:
  assumes r: "timer_set dyn cur timer d p cb a s = Inr s'"
    and nw: "no_wrap now p" and inv: "periods_safe now A s"
  shows "periods_safe now A s'"
proof -
  from timer_set_Inr_unlinked [OF r]
  have ok: "magic (timers s timer) = TIMER_MAGIC" and un: "\<not> list_in_list s timer"
    by simp_all
  from timer_set_result [OF ok un, of dyn cur d p cb a] r
  have t: "timers s' = (timers s)(timer := (timers s timer)
         \<lparr>scheduled_time := cur + d, periodic_time := p, callback := cb, arg := a\<rparr>)"
    and q: "timer_queue s' = insert_timer_scan (timers s') timer (timer_queue s)"
    by auto
  have "set (timer_queue s') = insert timer (set (timer_queue s))"
    unfolding q by (rule set_insert_timer_scan)
  with inv nw show ?thesis
    by (auto simp: periods_safe_def t)
qed

lemma timer_cancel_due_count:
  assumes r: "timer_cancel dyn cur timer s = Inr s'"
  shows "due_count now s' \<le> due_count now s"
proof -
  from timer_cancel_result [OF timer_cancel_Inr_valid [OF r], of dyn cur] r
  have t: "timers s' = (timers s)(timer := (timers s timer)\<lparr>periodic_time := 0, callback := 0, arg := 0\<rparr>)"
    and q: "timer_queue s' = remove1 timer (timer_queue s)"
    by auto
  have "due now s' = due now s"
    by (auto simp: due_def t fun_eq_iff)
  then show ?thesis
    by (simp add: due_count_def q length_filter_remove1)
qed

lemma timer_cancel_periods_safe:
  assumes r: "timer_cancel dyn cur timer s = Inr s'" and inv: "periods_safe now A s"
  shows "periods_safe now A s'"
proof -
  from timer_cancel_result [OF timer_cancel_Inr_valid [OF r], of dyn cur] r
  have t: "timers s' = (timers s)(timer := (timers s timer)\<lparr>periodic_time := 0, callback := 0, arg := 0\<rparr>)"
    and q: "timer_queue s' = remove1 timer (timer_queue s)"
    by auto
  have "set (timer_queue s') \<subseteq> set (timer_queue s)"
    unfolding q by (rule set_remove1_subset)
  with inv show ?thesis
    by (auto simp: periods_safe_def t no_wrap_zero)
qed

lemma max_1_nonzero: "max d (1::lk_time_t) \<noteq> 0"
  by (simp add: coerced_delay_max [symmetric])

lemma run_call_due_count:
  assumes "call_after now c" and "run_call dyn c s = Inr s'"
  shows "due_count now s' \<le> due_count now s"
proof (cases c)
  case (Call_set_oneshot timer cur delay cb a)
  with assms have "timer_set dyn cur timer (max delay 1) 0 cb a s = Inr s'"
    and "no_wrap cur (max delay 1)" and "now \<le> cur"
    by (simp_all add: timer_set_oneshot_def coerced_delay_max)
  from timer_set_due_count [OF this max_1_nonzero] show ?thesis by simp
next
  case (Call_set_periodic timer cur period cb a)
  with assms have "timer_set dyn cur timer (max period 1) (max period 1) cb a s = Inr s'"
    and "no_wrap cur (max period 1)" and "now \<le> cur"
    by (simp_all add: timer_set_periodic_def coerced_delay_max Let_def)
  from timer_set_due_count [OF this max_1_nonzero] show ?thesis by simp
next
  case (Call_cancel timer cur)
  with assms have "timer_cancel dyn cur timer s = Inr s'" by simp
  then show ?thesis by (rule timer_cancel_due_count)
qed

lemma run_call_periods_safe:
  assumes "call_after now c" and "run_call dyn c s = Inr s'" and "periods_safe now A s"
  shows "periods_safe now A s'"
proof (cases c)
  case (Call_set_oneshot timer cur delay cb a)
  with assms have "timer_set dyn cur timer (max delay 1) 0 cb a s = Inr s'"
    by (simp_all add: timer_set_oneshot_def coerced_delay_max)
  from timer_set_periods_safe [OF this no_wrap_zero assms(3)] show ?thesis .
next
  case (Call_set_periodic timer cur period cb a)
  with assms have "timer_set dyn cur timer (max period 1) (max period 1) cb a s = Inr s'"
    and "no_wrap cur (max period 1)" and "now \<le> cur"
    by (simp_all add: timer_set_periodic_def coerced_delay_max Let_def)
  from timer_set_periods_safe [OF this(1) no_wrap_earlier [OF this(2,3)] assms(3)]
  show ?thesis .
next
  case (Call_cancel timer cur)
  with assms have "timer_cancel dyn cur timer s = Inr s'" by simp
  then show ?thesis using assms(3) by (rule timer_cancel_periods_safe)
qed

lemma run_calls_invariant:
  assumes "\<forall>c \<in> set cs. call_after now c" and "run_calls dyn cs s = Inr s'"
    and "periods_safe now A s"
  shows "due_count now s' \<le> due_count now s \<and> periods_safe now A s'"
  using assms
proof (induction cs arbitrary: s)
  case Nil
  then show ?case by simp
next
  case (Cons c cs)
  from Cons.prems(2) obtain s1 where
    c: "run_call dyn c s = Inr s1" and cs: "run_calls dyn cs s1 = Inr s'"
    by (auto split: sum.splits)
  from Cons.prems(1) have ok: "call_after now c" and oks: "\<forall>c \<in> set cs. call_after now c"
    by simp_all
  from run_call_due_count [OF ok c] have 1: "due_count now s1 \<le> due_count now s" .
  from run_call_periods_safe [OF ok c Cons.prems(3)] have 2: "periods_safe now A s1" .
  from Cons.IH [OF oks cs 2] 1 show ?case by simp
qed

lemma due_queue_update [simp]: "due now (s\<lparr>timer_queue := q\<rparr>) = due now s"
  by (simp add: due_def fun_eq_iff)

lemma requeue_due_count:
  assumes un: "\<not> list_in_list s timer" and nw: "no_wrap now d" and d: "d \<noteq> 0"
  shows "due_count now (insert_timer_in_queue timer
           (s\<lparr>timers := (timers s)(timer := (timers s timer)\<lparr>scheduled_time := now + d\<rparr>)\<rparr>)) =
         due_count now s"
proof -
  let ?ts = "(timers s)(timer := (timers s timer)\<lparr>scheduled_time := now + d\<rparr>)"
  let ?s' = "insert_timer_in_queue timer (s\<lparr>timers := ?ts\<rparr>)"
  have t: "timers ?s' = ?ts"
    and q: "timer_queue ?s' = insert_timer_scan ?ts timer (timer_queue s)"
    by (simp_all add: insert_timer_in_queue_def)
  have nd: "\<not> due now ?s' timer"
    using no_wrap_future [OF nw order_refl d] by (simp add: due_def TIME_LT_def t)
  have same: "filter (due now ?s') (timer_queue s) = filter (due now s) (timer_queue s)"
    using un by (intro filter_cong) (auto simp: due_def t list_in_list_def)
  show ?thesis
    unfolding due_count_def q length_filter_insert_timer_scan
    using nd same by simp
qed

lemma requeue_periods_safe:
  assumes "periods_safe now {timer} s"
  shows "periods_safe now {} (insert_timer_in_queue timer
           (s\<lparr>timers := (timers s)(timer := (timers s timer)\<lparr>scheduled_time := t\<rparr>)\<rparr>))"
  using assms
  by (auto simp: periods_safe_def insert_timer_in_queue_def set_insert_timer_scan)

lemma timer_tick_fire_progress:
  assumes calls: "\<forall>p t a st. \<forall>c \<in> set (fst (body p t now a st)). call_after now c"
    and hd: "list_peek_head s = Some timer"
    and due: "due now s timer"
    and inv: "periods_safe now {} s"
    and f: "timer_tick_fire (scripted dyn body) now timer s = Inr (r, s')"
  shows "due_count now s' < due_count now s \<and> periods_safe now {} s'"
proof -
  from hd obtain rest where q: "timer_queue s = timer # rest"
    by (auto simp: list_peek_head_def split: list.splits)
  let ?s1 = "list_delete timer s"
  have s1: "?s1 = s\<lparr>timer_queue := rest\<rparr>"
    using q by (rule list_delete_head)
  have m: "magic (timers s timer) = TIMER_MAGIC"
    using f by (auto simp: timer_tick_fire_def split: if_splits)
  have dc1: "due_count now s = Suc (due_count now ?s1)"
    using due by (simp add: due_count_def s1 q due_def)
  have inv1: "periods_safe now {timer} ?s1"
    using inv by (simp add: periods_safe_def s1 q)
  let ?cs = "fst (body (callback (timers s timer)) timer now (arg (timers s timer)) ?s1)"
  from f m obtain s2 where
    run: "run_calls dyn ?cs ?s1 = Inr s2"
    and c: "scripted dyn body (callback (timers s timer)) timer now (arg (timers s timer)) ?s1 =
              Inr (r, s2)"
    by (auto simp: timer_tick_fire_def Let_def scripted_def list_delete_def split: sum.splits)
  from calls have ok: "\<forall>c \<in> set ?cs. call_after now c"
    by blast
  from run_calls_invariant [OF ok run inv1]
  have dc2: "due_count now s2 \<le> due_count now ?s1" and inv2: "periods_safe now {timer} s2"
    by simp_all
  let ?requeue = "0 < periodic_time (timers s timer) \<and> \<not> list_in_list s2 timer \<and>
                  0 < periodic_time (timers s2 timer)"
  from timer_tick_fire_result [of s timer "scripted dyn body" now r s2, OF m c] f
  have s': "s' = (if ?requeue
             then insert_timer_in_queue timer
                    (s2\<lparr>timers := (timers s2)(timer := (timers s2 timer)
                          \<lparr>scheduled_time := now + periodic_time (timers s2 timer)\<rparr>)\<rparr>)
             else s2)"
    by simp
  show ?thesis
  proof (cases ?requeue)
    case False
    with s' have "s' = s2" by simp
    with dc1 dc2 inv2 show ?thesis
      by (simp add: periods_safe_def)
  next
    case True
    then have un: "\<not> list_in_list s2 timer" and p: "periodic_time (timers s2 timer) \<noteq> 0"
      by auto
    have nw: "no_wrap now (periodic_time (timers s2 timer))"
      using inv2 by (simp add: periods_safe_def)
    from True s' have e: "s' = insert_timer_in_queue timer
                    (s2\<lparr>timers := (timers s2)(timer := (timers s2 timer)
                          \<lparr>scheduled_time := now + periodic_time (timers s2 timer)\<rparr>)\<rparr>)"
      by simp
    have "due_count now s' = due_count now s2"
      unfolding e using un nw p by (rule requeue_due_count)
    moreover have "periods_safe now {} s'"
      unfolding e using inv2 by (rule requeue_periods_safe)
    ultimately show ?thesis
      using dc1 dc2 by simp
  qed
qed

lemma timer_tick_loop_fuel:
  assumes calls: "\<forall>p t a st. \<forall>c \<in> set (fst (body p t now a st)). call_after now c"
  shows "due_count now s < fuel \<Longrightarrow> periods_safe now {} s \<Longrightarrow>
         \<exists>res. timer_tick_loop (scripted dyn body) fuel now ret fired s = Some res"
proof (induction fuel arbitrary: s ret fired)
  case 0
  then show ?case by simp
next
  case (Suc fuel)
  show ?case
  proof (cases "list_peek_head s")
    case None
    then show ?thesis by simp
  next
    case (Some timer)
    show ?thesis
    proof (cases "TIME_LT now (scheduled_time (timers s timer))")
      case True
      with Some show ?thesis by simp
    next
      case False
      then have due: "due now s timer"
        by (simp add: due_def)
      show ?thesis
      proof (cases "timer_tick_fire (scripted dyn body) now timer s")
        case (Inl e)
        with Some False show ?thesis by simp
      next
        case (Inr p)
        obtain r s' where p: "p = (r, s')" by (cases p)
        from timer_tick_fire_progress [OF calls Some due Suc.prems(2) Inr [unfolded p]]
        have less: "due_count now s' < due_count now s" and inv: "periods_safe now {} s'"
          by simp_all
        from less Suc.prems(1) have "due_count now s' < fuel" by simp
        from Suc.IH [OF this inv] Some False Inr p show ?thesis
          by simp
      qed
    qed
  qed
qed

text \<open>
  Claim C10, amended. The callbacks only use the timer interface; every call they make
  during the dispatch at \<open>now\<close> reads a current time at or after \<open>now\<close>; and no
  deadline wraps around \<open>lk_time_t\<close>: not \<open>now\<close> plus the period of a queued
  timer, and not the current time plus the coerced delay of a call. Then the drain loop
  ends, by returning or by stopping the kernel, as soon as its fuel exceeds the number of
  queue entries that are due at \<open>now\<close>, and so does \<open>timer_tick\<close>: each
  iteration removes one due entry, and no entry inserted during the dispatch is due.
\<close>

theorem timer_tick_loop_terminates:
  assumes "\<forall>p timer a st. \<forall>c \<in> set (fst (body p timer now a st)). call_after now c"
    and "\<forall>u \<in> set (timer_queue s). no_wrap now (periodic_time (timers s u))"
    and "due_count now s < fuel"
  shows "(\<exists>res. timer_tick_loop (scripted dyn body) fuel now ret fired s = Some res) \<and>
         (\<exists>res. timer_tick dyn (scripted dyn body) thread_timer_tick fuel a now s = Some res)"
proof -
  have inv: "periods_safe now {} s"
    using assms(2) by (simp add: periods_safe_def)
  from timer_tick_loop_fuel [of body now s fuel dyn, OF assms(1,3) inv]
  have 1: "\<exists>res. timer_tick_loop (scripted dyn body) fuel now ret fired s = Some res" for ret fired
    by blast
  from 1 [of INT_NO_RESCHEDULE "[]"] 
  have 2: "\<exists>res. timer_tick dyn (scripted dyn body) thread_timer_tick fuel a now s = Some res"
    by (auto simp: timer_tick_def Let_def split: sum.splits)
  from 1 2 show ?thesis by blast
qed

lemma arming_run:
  "\<exists>s'. timer_tick_loop (scripted True arming_body) (Suc (Suc 0)) 6 INT_NO_RESCHEDULE [] one_linked =
      Some (Inr (INT_RESCHEDULE, [(1, INT_RESCHEDULE)], s')) \<and>
      timer_queue s' = [2, 1] \<and> scheduled_time (timers s' 2) = 7 \<and>
      scheduled_time (timers s' 1) = 9 \<and> hw_calls s' = [Set_oneshot_timer 1]"
  by (simp add: one_linked_def arming_body_def scripted_def list_peek_head_def
      TIME_LT_def TIME_GT_def timer_tick_fire_def insert_timer_in_queue_def
      TIMER_INITIAL_VALUE_def list_delete_def Let_def list_in_list_def
      timer_set_oneshot_def timer_set_def enter_critical_section_def exit_critical_section_def
      platform_set_oneshot_timer_def)

theorem timer_tick_loop_terminates_witness:
  "due_count 6 one_linked < 2 \<and>
   call_after 6 (Call_set_oneshot 2 6 0 7 0) \<and>
   no_wrap 6 (periodic_time (timers one_linked 1)) \<and>
   (\<exists>res. timer_tick_loop (scripted True arming_body) 2 6 INT_NO_RESCHEDULE [] one_linked =
            Some res) \<and>
   (\<exists>res. timer_tick True (scripted True arming_body) INT_NO_RESCHEDULE 2 0 6 one_linked =
            Some res)"
proof -
  have c: "\<forall>p timer a st. \<forall>c \<in> set (fst (arming_body p timer 6 a st)). call_after 6 c"
    and c': "call_after 6 (Call_set_oneshot 2 6 0 7 0)"
    by (simp_all add: arming_body_def no_wrap_def)
  have p: "\<forall>u \<in> set (timer_queue one_linked). no_wrap 6 (periodic_time (timers one_linked u))"
    and p': "no_wrap 6 (periodic_time (timers one_linked 1))"
    by (simp_all add: one_linked_def no_wrap_def)
  have d: "due_count 6 one_linked < 2"
    by (simp add: due_count_def due_def TIME_LT_def one_linked_def)
  from timer_tick_loop_terminates
         [where body = arming_body and now = 6 and s = one_linked and fuel = 2 and dyn = True
            and ret = INT_NO_RESCHEDULE and fired = "[]" and thread_timer_tick = INT_NO_RESCHEDULE
            and a = 0, OF c p d]
    c' p' d
  show ?thesis
    by blast
qed

text \<open>
  The claim as stated fails when the deadline of the requeue wraps around. Timer 1 is
  armed at the current time \<open>0xFFFFFFFF\<close> with a period of \<open>0x80000001\<close>
  ticks, which gives \<open>wrap_state\<close>. At \<open>now = 0xFFFFFFFF\<close> the timer is due; its callback makes no
  call; its period is at least 1; the requeue computes
  \<open>0xFFFFFFFF + 0x80000001 = 0x80000000\<close>, which is not after \<open>now\<close>, and the
  iteration ends in the state it started from: the loop never stops.
\<close>

lemma wrapped_deadline: "(6442450944::lk_time_t) = 2147483648"
  by simp

lemma wrap_state_fire:
  "timer_tick_fire (scripted False quiet_body) 0xFFFFFFFF 1 wrap_state =
     Inr (INT_NO_RESCHEDULE, wrap_state)"
  by (simp add: wrap_state_def timer_tick_fire_def scripted_def quiet_body_def
      TIMER_INITIAL_VALUE_def list_delete_def Let_def list_in_list_def
      insert_timer_in_queue_def wrapped_deadline)

lemma wrap_state_loop:
  "timer_tick_loop (scripted False quiet_body) fuel 0xFFFFFFFF INT_NO_RESCHEDULE fired wrap_state = None"
proof (induction fuel arbitrary: fired)
  case 0
  show ?case by simp
next
  case (Suc fuel)
  have "list_peek_head wrap_state = Some 1"
    and "\<not> TIME_LT 0xFFFFFFFF (scheduled_time (timers wrap_state 1))"
    by (simp_all add: wrap_state_def list_peek_head_def TIME_LT_def)
  then show ?case
    by (simp add: wrap_state_fire [unfolded One_nat_def] Suc.IH)
qed

lemma wrap_state_armed:
  "timer_set_periodic False 0xFFFFFFFF 1 0x80000001 7 0 all_initialized = Inr wrap_state"
  by (simp add: timer_set_periodic_def timer_set_def all_initialized_def wrap_state_def
      TIMER_INITIAL_VALUE_def list_in_list_def Let_def enter_critical_section_def
      exit_critical_section_def insert_timer_in_queue_def wrapped_deadline)

theorem timer_tick_loop_terminates_counterexample:
  "timer_set_periodic False 0xFFFFFFFF 1 0x80000001 7 0 all_initialized = Inr wrap_state \<and>
   timer_queue wrap_state = [1] \<and>
   1 \<le> periodic_time (timers wrap_state 1) \<and>
   timer_tick_fire (scripted False quiet_body) 0xFFFFFFFF 1 wrap_state =
     Inr (INT_NO_RESCHEDULE, wrap_state) \<and>
   \<not> TIME_GT (0xFFFFFFFF + periodic_time (timers wrap_state 1)) 0xFFFFFFFF \<and>
   timer_tick_loop (scripted False quiet_body) 1000 0xFFFFFFFF INT_NO_RESCHEDULE [] wrap_state = None"
  using wrap_state_armed wrap_state_fire wrap_state_loop [of 1000 "[]"]
  by (simp add: wrap_state_def TIME_GT_def)

subsection \<open>The value returned by the dispatcher\<close>











end
